theory Spec2Isabelle
  imports Complex_Main "HOL-Library.Word"
begin

section \<open>Data model (common/packet.h)\<close>

text \<open>
  A C++ \<open>float\<close> is an IEEE 754 value: a finite number (always a rational), one of the
  two infinities, or NaN. The program only compares floats with integer literals, and an
  IEEE comparison is exact, so a float is modelled by its value. Every finite float is a
  rational, hence every statement proved for all \<open>cfloat\<close> covers every float; the values
  used in concrete evaluations below (small integers, NaN) are floats.
  The ordered comparisons \<open><\<close> and \<open>></\<close> are false as soon as one operand is NaN.
\<close>

datatype cfloat = NaN | MinusInf | Finite rat | PlusInf

fun fless :: "cfloat \<Rightarrow> cfloat \<Rightarrow> bool" where
  "fless NaN y = False"
| "fless x NaN = False"
| "fless MinusInf MinusInf = False"
| "fless MinusInf y = True"
| "fless (Finite a) MinusInf = False"
| "fless (Finite a) (Finite b) = (a < b)"
| "fless (Finite a) PlusInf = True"
| "fless PlusInf y = False"

definition fgreater :: "cfloat \<Rightarrow> cfloat \<Rightarrow> bool" where
  "fgreater x y = fless y x"

definition fleq :: "cfloat \<Rightarrow> cfloat \<Rightarrow> bool" where
  "fleq x y = (x \<noteq> NaN \<and> y \<noteq> NaN \<and> \<not> fless y x)"

text \<open>The conversion of an \<open>int\<close> operand to \<open>float\<close>; exact on the small literals used.\<close>

definition int_to_float :: "int \<Rightarrow> cfloat" where
  "int_to_float i = Finite (of_int i)"

text \<open>
  \<open>int\<close> is a 32-bit two's complement integer and \<open>std::time_t\<close> a 64-bit one, both
  read with \<open>sint\<close>. \<open>TIME_MAX\<close> is the largest value of \<open>std::time_t\<close>.
\<close>

type_synonym cint = "32 word"
type_synonym time_t = "64 word"

definition TIME_MAX :: int where
  "TIME_MAX = 9223372036854775807"

record IoTPacket =
  device_id :: string
  sequence_no :: cint
  temperature :: cfloat
  humidity :: cfloat
  packet_rate :: cint
  cpu_usage :: cfloat
  battery_level :: cfloat
  timestamp :: time_t

section \<open>Anomaly detector (gateway/anomaly_detector.cpp)\<close>

definition is_anomalous :: "IoTPacket \<Rightarrow> bool" where
  "is_anomalous pkt =
     (if fgreater (temperature pkt) (int_to_float 60) then True
      else if sint (packet_rate pkt) > 100 then True
      else False)"

section \<open>Gateway (gateway/gateway.cpp)\<close>

definition BATCH_SIZE :: nat where
  "BATCH_SIZE = 5"

text \<open>
  \<open>validate_packet\<close> reads the clock once, with \<open>std::time(nullptr)\<close>; that reading is
  the parameter \<open>now\<close>. The sum \<open>std::time(nullptr) + 5\<close> is computed in
  \<open>std::time_t\<close>: for a reading above \<open>TIME_MAX - 5\<close> it overflows (undefined behaviour
  in C++), and the model takes the two's complement result, which is what the compiled
  program compares with.
\<close>

definition validate_packet :: "IoTPacket \<Rightarrow> time_t \<Rightarrow> bool" where
  "validate_packet pkt now =
     (if sint (sequence_no pkt) \<le> 0 then False
      else if fless (temperature pkt) (int_to_float (- 20))
              \<or> fgreater (temperature pkt) (int_to_float 100) then False
      else if fless (cpu_usage pkt) (int_to_float 0)
              \<or> fgreater (cpu_usage pkt) (int_to_float 100) then False
      else if fless (battery_level pkt) (int_to_float 0)
              \<or> fgreater (battery_level pkt) (int_to_float 100) then False
      else if sint (timestamp pkt) > sint (now + 5) then False
      else True)"

text \<open>
  The sink is \<open>std::cout\<close>. The stream is modelled as the list of the values inserted
  with \<open><<\<close>, one item per insertion, in order: a string literal, a \<open>std::string\<close>, an
  \<open>int\<close>, a \<open>float\<close>, a \<open>std::time_t\<close>, or \<open>std::endl\<close>.
\<close>

datatype out_item =
    OLit string
  | OStr string
  | OInt cint
  | OFloat cfloat
  | OTime time_t
  | OEndl

record gateway =
  batch_buffer :: "IoTPacket list"
  cout :: "out_item list"

definition gateway_init :: gateway where
  "gateway_init = \<lparr>batch_buffer = [], cout = []\<rparr>"

definition batch_header :: string where
  "batch_header = CHR 0x0A # ''[SENDING BATCH TO SERVER]'' @ [CHR 0x0A]"

text \<open>The body of the loop of \<open>send_batch_to_server\<close>: one output statement per packet.\<close>

definition packet_line :: "IoTPacket \<Rightarrow> out_item list" where
  "packet_line pkt =
     [OStr (device_id pkt), OLit '', '',
      OInt (sequence_no pkt), OLit '', '',
      OFloat (temperature pkt), OLit '', '',
      OFloat (humidity pkt), OLit '', '',
      OInt (packet_rate pkt), OLit '', '',
      OFloat (cpu_usage pkt), OLit '', '',
      OFloat (battery_level pkt), OLit '', '',
      OTime (timestamp pkt), OEndl]"

text \<open>The range-based \<open>for\<close> over the buffer, front to back.\<close>

primrec print_batch :: "IoTPacket list \<Rightarrow> out_item list \<Rightarrow> out_item list" where
  "print_batch [] out = out"
| "print_batch (pkt # rest) out = print_batch rest (out @ packet_line pkt)"

definition send_batch_to_server :: "gateway \<Rightarrow> gateway" where
  "send_batch_to_server g =
     (let out1 = cout g @ [OLit batch_header];
          out2 = print_batch (batch_buffer g) out1
      in \<lparr>batch_buffer = [], cout = out2\<rparr>)"

text \<open>
  \<open>batch_buffer.push_back(pkt)\<close> appends at the back. Running out of memory is outside
  the model.
\<close>

definition push_back :: "IoTPacket \<Rightarrow> gateway \<Rightarrow> gateway" where
  "push_back pkt g = g\<lparr>batch_buffer := batch_buffer g @ [pkt]\<rparr>"

definition process_packet :: "IoTPacket \<Rightarrow> time_t \<Rightarrow> gateway \<Rightarrow> gateway" where
  "process_packet pkt now g =
     (if \<not> validate_packet pkt now then
        g\<lparr>cout := cout g @
              [OLit ''[INVALID PACKET DROPPED] Seq: '', OInt (sequence_no pkt), OEndl]\<rparr>
      else
        let g1 = push_back pkt g
        in if length (batch_buffer g1) \<ge> BATCH_SIZE then send_batch_to_server g1 else g1)"

text \<open>
  Feeding the gateway a sequence of packets: one call of \<open>process_packet\<close> per packet,
  in order, each with the clock reading of its own call.
\<close>

fun process_all :: "(IoTPacket \<times> time_t) list \<Rightarrow> gateway \<Rightarrow> gateway" where
  "process_all [] g = g"
| "process_all ((pkt, now) # rest) g = process_all rest (process_packet pkt now g)"

text \<open>The packets of an input sequence that pass validation, in input order.\<close>

definition accepted :: "(IoTPacket \<times> time_t) list \<Rightarrow> IoTPacket list" where
  "accepted ins = map fst (filter (\<lambda>(pkt, now). validate_packet pkt now) ins)"

text \<open>
  Each call of \<open>send_batch_to_server\<close> inserts the batch header once, and nothing else
  inserts that literal: the number of flushes is the number of headers in the stream.
\<close>

definition flush_count :: "out_item list \<Rightarrow> nat" where
  "flush_count out = length (filter (\<lambda>x. x = OLit batch_header) out)"

text \<open>
  Membership of a float in a closed interval with integer ends, for stating properties:
  \<open>fleq\<close> is the IEEE comparison \<open><=\<close>, and NaN is in no interval. The program itself
  only uses \<open><\<close> and \<open>></\<close>.
\<close>

definition in_range :: "int \<Rightarrow> int \<Rightarrow> cfloat \<Rightarrow> bool" where
  "in_range lo hi x = (fleq (int_to_float lo) x \<and> fleq x (int_to_float hi))"

section \<open>Device simulator (device/esp32_simulator.cpp)\<close>

text \<open>
  \<open>seq_counter\<close> is a static \<open>int\<close>, initially 0. Incrementing an \<open>int\<close> that holds
  \<open>INT_MAX\<close> is undefined behaviour; the model returns \<open>Signed_Overflow\<close> there. What
  the environment supplies to one call is a parameter: the reading of \<open>std::time(nullptr)\<close>
  and the results of the five calls of \<open>rand()\<close>, in program order (\<open>rand()\<close> returns a
  value between 0 and \<open>RAND_MAX\<close>, so \<open>%\<close> is the mathematical remainder).
\<close>

datatype error = Signed_Overflow

record gen_inputs =
  clock :: time_t
  rand1 :: nat
  rand2 :: nat
  rand3 :: nat
  rand4 :: nat
  rand5 :: nat

definition INT_MAX :: int where
  "INT_MAX = 2147483647"

definition generate_packet :: "cint \<Rightarrow> gen_inputs \<Rightarrow> error + (IoTPacket \<times> cint)" where
  "generate_packet seq_counter env =
     (if sint seq_counter = INT_MAX then Inl Signed_Overflow
      else
        let c = seq_counter + 1
        in Inr (\<lparr>device_id = ''ESP32_SIM_01'',
                 sequence_no = c,
                 temperature = int_to_float (25 + int (rand1 env mod 10)),
                 humidity = int_to_float (45 + int (rand2 env mod 20)),
                 packet_rate = word_of_int (10 + int (rand3 env mod 10)),
                 cpu_usage = int_to_float (20 + int (rand4 env mod 60)),
                 battery_level = int_to_float (30 + int (rand5 env mod 70)),
                 timestamp = clock env\<rparr>, c))"

text \<open>
  The value of \<open>seq_counter\<close> after the first \<open>k\<close> calls, and the packet returned by
  call number \<open>n\<close> (counted from 1); \<open>env k\<close> is what the environment supplies to call
  number \<open>k\<close>.
\<close>

fun counter_after :: "(nat \<Rightarrow> gen_inputs) \<Rightarrow> nat \<Rightarrow> error + cint" where
  "counter_after env 0 = Inr 0"
| "counter_after env (Suc k) =
     (case counter_after env k of
        Inl e \<Rightarrow> Inl e
      | Inr c \<Rightarrow> (case generate_packet c (env (Suc k)) of
                    Inl e \<Rightarrow> Inl e
                  | Inr (pkt, c') \<Rightarrow> Inr c'))"

definition nth_call :: "(nat \<Rightarrow> gen_inputs) \<Rightarrow> nat \<Rightarrow> error + IoTPacket" where
  "nth_call env n =
     (case counter_after env (n - 1) of
        Inl e \<Rightarrow> Inl e
      | Inr c \<Rightarrow> (case generate_packet c (env n) of
                    Inl e \<Rightarrow> Inl e
                  | Inr (pkt, c') \<Rightarrow> Inr pkt))"

section \<open>The reference run (main.cpp)\<close>

text \<open>
  One iteration of the loop of \<open>main\<close>: generate a packet, write the device log line,
  hand the packet to the gateway. The environment of an iteration is what the generator
  reads and the clock reading of \<open>validate_packet\<close>. The loop runs 12 times; both source
  files are included in \<open>main.cpp\<close>, so the counter and the buffer are the globals above.
  The call \<open>srand(time(nullptr))\<close> only decides which values \<open>rand()\<close> returns, and these
  are part of the environment.
\<close>

record iter_env =
  gen :: gen_inputs
  vclock :: time_t

definition device_log :: "IoTPacket \<Rightarrow> out_item list" where
  "device_log pkt =
     [OLit ''[DEVICE LOG] '', OStr (device_id pkt),
      OLit '' Seq:'', OInt (sequence_no pkt),
      OLit '' Temp:'', OFloat (temperature pkt),
      OLit '' CPU:'', OFloat (cpu_usage pkt),
      OLit '' Battery:'', OFloat (battery_level pkt), OEndl]"

definition main_iteration :: "iter_env \<Rightarrow> cint \<times> gateway \<Rightarrow> error + (cint \<times> gateway)" where
  "main_iteration env s =
     (case s of (seq_counter, g) \<Rightarrow>
        (case generate_packet seq_counter (gen env) of
           Inl e \<Rightarrow> Inl e
         | Inr (pkt, c) \<Rightarrow>
             Inr (c, process_packet pkt (vclock env) (g\<lparr>cout := cout g @ device_log pkt\<rparr>))))"

fun main_loop :: "iter_env list \<Rightarrow> cint \<times> gateway \<Rightarrow> error + (cint \<times> gateway)" where
  "main_loop [] s = Inr s"
| "main_loop (env # rest) s =
     (case main_iteration env s of Inl e \<Rightarrow> Inl e | Inr s' \<Rightarrow> main_loop rest s')"

definition main :: "(nat \<Rightarrow> iter_env) \<Rightarrow> error + (cint \<times> gateway)" where
  "main envs = main_loop (map envs [0..<12]) (0, gateway_init)"

section \<open>Concrete inputs\<close>

definition sample_packet :: "cint \<Rightarrow> IoTPacket" where
  "sample_packet n =
     \<lparr>device_id = ''ESP32_SIM_01'', sequence_no = n, temperature = int_to_float 28,
      humidity = int_to_float 59, packet_rate = 15, cpu_usage = int_to_float 52,
      battery_level = int_to_float 95, timestamp = 1700000000\<rparr>"

definition sample_inputs :: "(IoTPacket \<times> time_t) list" where
  "sample_inputs =
     [(sample_packet 1, 1700000000), (sample_packet 2, 1700000000),
      (sample_packet 3, 1700000000), (sample_packet 4, 1700000000),
      (sample_packet 5, 1700000000), (sample_packet 6, 1700000000),
      (sample_packet 7, 1700000000), (sample_packet 8, 1700000000),
      (sample_packet 9, 1700000000), (sample_packet 10, 1700000000),
      (sample_packet 11, 1700000000), (sample_packet 12, 1700000000)]"

definition nan_packet :: IoTPacket where
  "nan_packet = (sample_packet 1)\<lparr>temperature := NaN\<rparr>"

definition sample_env :: "nat \<Rightarrow> gen_inputs" where
  "sample_env k =
     \<lparr>clock = 1700000000 + word_of_nat k, rand1 = 3, rand2 = 14, rand3 = 15, rand4 = 92, rand5 = 65\<rparr>"

section \<open>Auxiliary facts\<close>

subsection \<open>Float comparisons\<close>

lemma outside_range:
  "x \<noteq> NaN \<Longrightarrow> \<not> in_range lo hi x \<Longrightarrow>
   fless x (int_to_float lo) \<or> fgreater x (int_to_float hi)"
  by (cases x) (auto simp: in_range_def fleq_def fgreater_def int_to_float_def)

lemma inside_range:
  "in_range lo hi x \<Longrightarrow>
   \<not> fless x (int_to_float lo) \<and> \<not> fgreater x (int_to_float hi)"
  by (cases x) (auto simp: in_range_def fleq_def fgreater_def int_to_float_def)

subsection \<open>The clock sum\<close>

lemma sint_plus5:
  assumes "sint (now::time_t) \<le> TIME_MAX - 5"
  shows "sint (now + 5) = sint now + 5"
proof -
  have le: "sint now + 5 < 2 ^ 63" using assms by (simp add: TIME_MAX_def)
  have ge: "- (2 ^ 63) \<le> sint now + 5" using sint_ge [of now] by simp
  have "sint (now + 5) = signed_take_bit 63 (sint now + 5)"
    by (simp add: sint_word_add)
  also have "\<dots> = sint now + 5"
    using le ge by (simp add: signed_take_bit_int_eq_self)
  finally show ?thesis .
qed

subsection \<open>Valid packets\<close>

lemma valid_if_in_range:
  "0 < sint (sequence_no pkt) \<Longrightarrow> in_range (- 20) 100 (temperature pkt) \<Longrightarrow>
   in_range 0 100 (cpu_usage pkt) \<Longrightarrow> in_range 0 100 (battery_level pkt) \<Longrightarrow>
   sint (timestamp pkt) \<le> sint (now + 5) \<Longrightarrow> validate_packet pkt now"
  using inside_range [of "- 20" 100 "temperature pkt"]
    inside_range [of 0 100 "cpu_usage pkt"] inside_range [of 0 100 "battery_level pkt"]
  by (simp add: validate_packet_def)

lemma sample_packet_valid:
  "0 < sint n \<Longrightarrow> validate_packet (sample_packet n) 1700000000"
  by (simp add: validate_packet_def sample_packet_def fgreater_def int_to_float_def)

lemma sample_inputs_valid: "\<forall>(pkt, now) \<in> set sample_inputs. validate_packet pkt now"
  by (simp add: sample_inputs_def sample_packet_valid)

subsection \<open>The output of a flush\<close>

lemma print_batch_eq: "print_batch pkts out = out @ concat (map packet_line pkts)"
  by (induction pkts arbitrary: out) simp_all

lemma send_batch_eq:
  "send_batch_to_server g =
     \<lparr>batch_buffer = [],
      cout = cout g @ OLit batch_header # concat (map packet_line (batch_buffer g))\<rparr>"
  by (simp add: send_batch_to_server_def print_batch_eq)

lemma packet_line_cancel:
  assumes "packet_line p @ xs = packet_line q @ ys"
  shows "p = q \<and> xs = ys"
proof -
  from assms have "device_id p = device_id q" "sequence_no p = sequence_no q"
    "temperature p = temperature q" "humidity p = humidity q"
    "packet_rate p = packet_rate q" "cpu_usage p = cpu_usage q"
    "battery_level p = battery_level q" "timestamp p = timestamp q" "xs = ys"
    by (simp_all add: packet_line_def)
  then show ?thesis by simp
qed

lemma packet_lines_inj:
  "concat (map packet_line ps) = concat (map packet_line qs) \<Longrightarrow> ps = qs"
proof (induction ps arbitrary: qs)
  case Nil
  then show ?case by (cases qs) (simp_all add: packet_line_def)
next
  case (Cons p ps)
  show ?case
  proof (cases qs)
    case Nil
    with Cons.prems show ?thesis by (simp add: packet_line_def)
  next
    case (Cons q qs')
    with Cons.prems
    have "packet_line p @ concat (map packet_line ps)
            = packet_line q @ concat (map packet_line qs')"
      by simp
    then have "p = q" and "concat (map packet_line ps) = concat (map packet_line qs')"
      using packet_line_cancel by blast+
    with Cons.IH Cons show ?thesis by simp
  qed
qed

subsection \<open>Counting flushes\<close>

lemma flush_count_append: "flush_count (xs @ ys) = flush_count xs + flush_count ys"
  by (simp add: flush_count_def)

lemma flush_count_header: "flush_count (OLit batch_header # out) = Suc (flush_count out)"
  by (simp add: flush_count_def)

lemma flush_count_packet_line: "flush_count (packet_line pkt) = 0"
  by (simp add: flush_count_def packet_line_def batch_header_def)

lemma flush_count_lines: "flush_count (concat (map packet_line pkts)) = 0"
proof (induction pkts)
  case Nil
  show ?case by (simp add: flush_count_def)
next
  case (Cons pkt pkts)
  then show ?case by (simp add: flush_count_append flush_count_packet_line)
qed

subsection \<open>One call of the gateway\<close>

lemma process_rejected:
  "\<not> validate_packet pkt now \<Longrightarrow>
   process_packet pkt now g =
     g\<lparr>cout := cout g @
           [OLit ''[INVALID PACKET DROPPED] Seq: '', OInt (sequence_no pkt), OEndl]\<rparr>"
  by (simp add: process_packet_def)

lemma process_rejected_buffer:
  "\<not> validate_packet pkt now \<Longrightarrow>
   batch_buffer (process_packet pkt now g) = batch_buffer g"
  by (simp add: process_rejected)

lemma process_rejected_count:
  "\<not> validate_packet pkt now \<Longrightarrow>
   flush_count (cout (process_packet pkt now g)) = flush_count (cout g)"
  by (simp add: process_rejected flush_count_def batch_header_def)

lemma process_accepted_short:
  "validate_packet pkt now \<Longrightarrow> Suc (length (batch_buffer g)) < 5 \<Longrightarrow>
   process_packet pkt now g = g\<lparr>batch_buffer := batch_buffer g @ [pkt]\<rparr>"
  by (simp add: process_packet_def push_back_def BATCH_SIZE_def Let_def)

lemma process_accepted_full:
  "validate_packet pkt now \<Longrightarrow> 5 \<le> Suc (length (batch_buffer g)) \<Longrightarrow>
   process_packet pkt now g =
     \<lparr>batch_buffer = [],
      cout = cout g @ OLit batch_header # concat (map packet_line (batch_buffer g @ [pkt]))\<rparr>"
  by (simp add: process_packet_def push_back_def BATCH_SIZE_def Let_def send_batch_eq)

lemma process_accepted_full_count:
  "validate_packet pkt now \<Longrightarrow> 5 \<le> Suc (length (batch_buffer g)) \<Longrightarrow>
   flush_count (cout (process_packet pkt now g)) = Suc (flush_count (cout g))"
  by (simp add: process_accepted_full flush_count_append flush_count_header flush_count_lines
        flush_count_packet_line)

lemma process_accepted_full_buffer:
  "validate_packet pkt now \<Longrightarrow> 5 \<le> Suc (length (batch_buffer g)) \<Longrightarrow>
   batch_buffer (process_packet pkt now g) = []"
  by (simp add: process_accepted_full)

subsection \<open>A sequence of calls\<close>

lemma process_all_append: "process_all (xs @ ys) g = process_all ys (process_all xs g)"
  by (induction xs arbitrary: g) auto

lemma accepted_snoc:
  "accepted (ins @ [(pkt, now)]) =
     (if validate_packet pkt now then accepted ins @ [pkt] else accepted ins)"
  by (simp add: accepted_def)

lemma accepted_all_valid:
  "\<forall>(pkt, now) \<in> set ins. validate_packet pkt now \<Longrightarrow> accepted ins = map fst ins"
  by (induction ins) (auto simp: accepted_def)

lemma run_from_empty:
  assumes "batch_buffer g = []"
  shows "batch_buffer (process_all ins g)
           = drop (5 * (length (accepted ins) div 5)) (accepted ins)
       \<and> flush_count (cout (process_all ins g))
           = flush_count (cout g) + length (accepted ins) div 5"
proof (induction ins rule: rev_induct)
  case Nil
  show ?case using assms by (simp add: accepted_def)
next
  case (snoc x ins)
  obtain pkt now where x: "x = (pkt, now)" by (cases x)
  let ?g = "process_all ins g"
  let ?acc = "accepted ins"
  let ?n = "length ?acc"
  have buf: "batch_buffer ?g = drop (5 * (?n div 5)) ?acc"
    and cnt: "flush_count (cout ?g) = flush_count (cout g) + ?n div 5"
    using snoc.IH by simp_all
  have len: "length (batch_buffer ?g) = ?n mod 5"
    using buf by (simp add: minus_mult_div_eq_mod)
  show ?case
  proof (cases "validate_packet pkt now")
    case False
    then show ?thesis
      using buf cnt x
      by (simp add: process_all_append accepted_snoc process_rejected_buffer
            process_rejected_count)
  next
    case True
    show ?thesis
    proof (cases "?n mod 5 = 4")
      case True
      have d: "Suc ?n div 5 = Suc (?n div 5)" using True by presburger
      have e: "5 * Suc (?n div 5) = Suc ?n" using True by presburger
      have full: "5 \<le> Suc (length (batch_buffer ?g))" using len True by simp
      show ?thesis
        using \<open>validate_packet pkt now\<close> x cnt d e
        by (simp add: process_all_append accepted_snoc
              process_accepted_full_count [OF _ full] process_accepted_full_buffer [OF _ full])
    next
      case False
      have d: "Suc ?n div 5 = ?n div 5" using False by presburger
      have k: "5 * (?n div 5) \<le> ?n" by simp
      have short: "Suc (length (batch_buffer ?g)) < 5" using len False by presburger
      show ?thesis
        using \<open>validate_packet pkt now\<close> x cnt buf d k
        by (simp add: process_all_append accepted_snoc process_accepted_short [OF _ short])
    qed
  qed
qed

lemma valid_block_short:
  "\<forall>(pkt, now) \<in> set ins. validate_packet pkt now \<Longrightarrow>
   length (batch_buffer g) + length ins < 5 \<Longrightarrow>
   process_all ins g = g\<lparr>batch_buffer := batch_buffer g @ map fst ins\<rparr>"
proof (induction ins arbitrary: g)
  case Nil
  show ?case by simp
next
  case (Cons x ins)
  obtain pkt now where x: "x = (pkt, now)" by (cases x)
  have v: "validate_packet pkt now" using Cons.prems(1) x by simp
  have s: "Suc (length (batch_buffer g)) < 5" using Cons.prems(2) by simp
  have rest: "\<forall>(pkt, now) \<in> set ins. validate_packet pkt now" using Cons.prems(1) by simp
  have l: "length (batch_buffer (g\<lparr>batch_buffer := batch_buffer g @ [pkt]\<rparr>)) + length ins < 5"
    using Cons.prems(2) by simp
  show ?case
    using Cons.IH [OF rest l] x by (simp add: process_accepted_short [OF v s])
qed


subsection \<open>The sequence counter\<close>

lemma sint_succ: "sint (c::cint) < 2147483647 \<Longrightarrow> sint (c + 1) = sint c + 1"
proof -
  assume lt: "sint c < 2147483647"
  have ge: "- (2 ^ 31) \<le> sint c" using sint_ge [of c] by simp
  have "sint (c + 1) = signed_take_bit 31 (sint c + 1)"
    by (simp add: sint_word_add)
  also have "\<dots> = sint c + 1"
    using lt ge by (simp add: signed_take_bit_int_eq_self)
  finally show ?thesis .
qed

lemma counter_after_ok:
  "k \<le> 2147483647 \<Longrightarrow> \<exists>c. counter_after env k = Inr c \<and> sint c = int k"
proof (induction k)
  case 0
  show ?case by simp
next
  case (Suc k)
  then obtain c where ih: "counter_after env k = Inr c" and c: "sint c = int k"
    by auto
  have lt: "sint c < 2147483647" using Suc.prems c by simp
  have "sint (c + 1) = int (Suc k)" using sint_succ [OF lt] c by simp
  then show ?case using ih lt by (simp add: generate_packet_def INT_MAX_def Let_def)
qed

subsection \<open>The reference run\<close>

lemma generated_packet:
  assumes "0 \<le> sint c" and "sint c < 2147483647" and "sint (clock env) \<le> sint (now + 5)"
  shows "\<exists>pkt. generate_packet c env = Inr (pkt, c + 1)
           \<and> sint (sequence_no pkt) = sint c + 1 \<and> validate_packet pkt now"
proof -
  have s: "sint (c + 1) = sint c + 1" using sint_succ [OF assms(2)] .
  have "rand1 env mod 10 < 10" "rand4 env mod 60 < 60" "rand5 env mod 70 < 70"
    by simp_all
  then have r: "\<not> 75 < rand1 env mod 10" "\<not> 80 < rand4 env mod 60"
    "\<not> 70 < rand5 env mod 70"
    by linarith+
  show ?thesis
    using assms s
    by (simp add: generate_packet_def INT_MAX_def Let_def validate_packet_def
          fgreater_def int_to_float_def r)
qed

lemma flush_count_device_log: "flush_count (device_log pkt) = 0"
  by (simp add: flush_count_def device_log_def batch_header_def)

lemma main_loop_append:
  "main_loop (xs @ ys) s =
     (case main_loop xs s of Inl e \<Rightarrow> Inl e | Inr s' \<Rightarrow> main_loop ys s')"
  by (induction xs arbitrary: s) (auto split: sum.splits)

lemma main_loop_invariant:
  assumes "\<forall>env \<in> set envs. sint (clock (gen env)) \<le> sint (vclock env + 5)"
    and "length envs \<le> 2147483647"
  shows "\<exists>c g. main_loop envs (0, gateway_init) = Inr (c, g)
           \<and> sint c = int (length envs)
           \<and> flush_count (cout g) = length envs div 5
           \<and> map (\<lambda>pkt. sint (sequence_no pkt)) (batch_buffer g)
               = map int [5 * (length envs div 5) + 1 ..< length envs + 1]"
  using assms
proof (induction envs rule: rev_induct)
  case Nil
  show ?case by (simp add: gateway_init_def flush_count_def)
next
  case (snoc env envs)
  let ?k = "length envs"
  from snoc obtain c g where run: "main_loop envs (0, gateway_init) = Inr (c, g)"
    and c: "sint c = int ?k"
    and cnt: "flush_count (cout g) = ?k div 5"
    and buf: "map (\<lambda>pkt. sint (sequence_no pkt)) (batch_buffer g)
               = map int [5 * (?k div 5) + 1 ..< ?k + 1]"
    by auto
  have "length (batch_buffer g) = length (map int [5 * (?k div 5) + 1 ..< ?k + 1])"
    using arg_cong [OF buf, of length] by (simp only: length_map)
  also have "\<dots> = ?k + 1 - (5 * (?k div 5) + 1)"
    by (simp only: length_map length_upt)
  also have "\<dots> = ?k mod 5"
    by (simp add: minus_mult_div_eq_mod)
  finally have len: "length (batch_buffer g) = ?k mod 5" .
  have pre: "0 \<le> sint c" "sint c < 2147483647"
    "sint (clock (gen env)) \<le> sint (vclock env + 5)"
    using c snoc.prems by simp_all
  have c': "sint (c + 1) = int ?k + 1"
    using sint_succ [OF pre(2)] c by simp
  from generated_packet [OF pre]
  obtain pkt where gen: "generate_packet c (gen env) = Inr (pkt, c + 1)"
    and seq: "sint (sequence_no pkt) = int ?k + 1"
    and valid: "validate_packet pkt (vclock env)"
    using c by auto
  let ?g = "g\<lparr>cout := cout g @ device_log pkt\<rparr>"
  have logged: "flush_count (cout ?g) = ?k div 5" "batch_buffer ?g = batch_buffer g"
    using cnt by (simp_all add: flush_count_append flush_count_device_log)
  have step: "main_loop (envs @ [env]) (0, gateway_init)
                = Inr (c + 1, process_packet pkt (vclock env) ?g)"
    using run gen by (simp add: main_loop_append main_iteration_def)
  show ?case
  proof (cases "?k mod 5 = 4")
    case True
    have d: "Suc ?k div 5 = Suc (?k div 5)" using True by presburger
    have e: "5 * Suc (?k div 5) = Suc ?k" using True by presburger
    have full: "5 \<le> Suc (length (batch_buffer ?g))" using len True by simp
    show ?thesis
      using step c' d e logged
        process_accepted_full_count [OF valid full] process_accepted_full_buffer [OF valid full]
      by simp
  next
    case False
    have d: "Suc ?k div 5 = ?k div 5" using False by presburger
    have k: "5 * (?k div 5) \<le> ?k" by simp
    have "Suc (?k mod 5) < 5" using False by presburger
    then have short: "Suc (length (batch_buffer ?g)) < 5" using len by simp
    show ?thesis
      using step c' d k logged buf seq
      by (simp add: process_accepted_short [OF valid short])
  qed
qed

lemma main_reference_run:
  assumes "\<forall>i < 12. sint (clock (gen (envs i))) \<le> sint (vclock (envs i) + 5)"
  shows "\<exists>c g. main envs = Inr (c, g) \<and> sint c = 12 \<and> flush_count (cout g) = 2
           \<and> map (\<lambda>pkt. sint (sequence_no pkt)) (batch_buffer g) = [11, 12]"
proof -
  have a: "\<forall>env \<in> set (map envs [0..<12]).
             sint (clock (gen env)) \<le> sint (vclock env + 5)"
    using assms by auto
  have b: "length (map envs [0..<12]) \<le> 2147483647" by simp
  have u: "[11..<13] = [11, 12::nat]" by (simp add: upt_rec)
  from main_loop_invariant [OF a b] show ?thesis
    by (simp add: main_def u)
qed

section \<open>Validation and anomaly detection\<close>

text \<open>
  Claim C1, as stated, fails for a clock reading within 5 seconds of \<open>TIME_MAX\<close>: the
  sum \<open>now + 5\<close> overflows, and a packet none of whose fields meets a rejection condition
  (its timestamp is far below \<open>now + 5\<close>) is rejected.
\<close>

theorem clock_overflow_rejects:
  "(sint (sequence_no (sample_packet 1)) \<le> 0) = False
   \<and> fless (temperature (sample_packet 1)) (int_to_float (- 20)) = False
   \<and> fgreater (temperature (sample_packet 1)) (int_to_float 100) = False
   \<and> fless (cpu_usage (sample_packet 1)) (int_to_float 0) = False
   \<and> fgreater (cpu_usage (sample_packet 1)) (int_to_float 100) = False
   \<and> fless (battery_level (sample_packet 1)) (int_to_float 0) = False
   \<and> fgreater (battery_level (sample_packet 1)) (int_to_float 100) = False
   \<and> (sint (timestamp (sample_packet 1)) > sint (9223372036854775805 :: time_t) + 5) = False
   \<and> validate_packet (sample_packet 1) 9223372036854775805 = False"
  by (simp add: sample_packet_def validate_packet_def fgreater_def int_to_float_def)

text \<open>
  Claim C1, amended. For every packet and every clock reading \<open>now\<close> of at most
  \<open>TIME_MAX - 5\<close>, \<open>validate_packet\<close> returns false exactly when the sequence number is
  at most 0, or the temperature is below -20 or above 100, or the CPU usage is below 0 or
  above 100, or the battery level is below 0 or above 100, or the timestamp is greater than
  \<open>now + 5\<close>; otherwise it returns true. The result is a plain boolean: the function has
  no other outcome.
\<close>

theorem validate_packet_iff:
  assumes "sint now \<le> TIME_MAX - 5"
  shows "(validate_packet pkt now = False) =
     (sint (sequence_no pkt) \<le> 0
      \<or> fless (temperature pkt) (int_to_float (- 20))
      \<or> fgreater (temperature pkt) (int_to_float 100)
      \<or> fless (cpu_usage pkt) (int_to_float 0)
      \<or> fgreater (cpu_usage pkt) (int_to_float 100)
      \<or> fless (battery_level pkt) (int_to_float 0)
      \<or> fgreater (battery_level pkt) (int_to_float 100)
      \<or> sint (timestamp pkt) > sint now + 5)"
  by (simp add: validate_packet_def sint_plus5 [OF assms])

theorem validate_packet_iff_witness:
  "sint (1699999994 :: time_t) \<le> TIME_MAX - 5
   \<and> sint (timestamp (sample_packet 1)) > sint (1699999994 :: time_t) + 5
   \<and> validate_packet (sample_packet 1) 1699999994 = False
   \<and> validate_packet (sample_packet 1) 1699999995 = True
   \<and> validate_packet (sample_packet 0) 1699999995 = False"
proof -
  have a: "sint (1699999994 :: time_t) \<le> TIME_MAX - 5"
    and b: "sint (1699999995 :: time_t) \<le> TIME_MAX - 5"
    by (simp_all add: TIME_MAX_def)
  show ?thesis
    using a validate_packet_iff [OF a, of "sample_packet 1"]
      validate_packet_iff [OF b, of "sample_packet 1"]
      validate_packet_iff [OF b, of "sample_packet 0"]
    by (simp add: sample_packet_def fgreater_def int_to_float_def)
qed

text \<open>
  Claim C7, as stated, fails in two ways. A temperature that is NaN lies in no interval,
  yet it compares neither below -20 nor above 100, so the packet is accepted. And for a
  clock reading within 5 seconds of \<open>TIME_MAX\<close> the sum \<open>now + 5\<close> overflows, so a
  packet with \<open>timestamp \<le> now + 5\<close> and all other fields in range is rejected.
\<close>

theorem nan_temperature_accepted:
  "temperature nan_packet = NaN
   \<and> in_range (- 20) 100 (temperature nan_packet) = False
   \<and> validate_packet nan_packet 1700000000 = True
   \<and> 0 < sint (sequence_no (sample_packet 1))
   \<and> in_range (- 20) 100 (temperature (sample_packet 1))
   \<and> in_range 0 100 (cpu_usage (sample_packet 1))
   \<and> in_range 0 100 (battery_level (sample_packet 1))
   \<and> sint (timestamp (sample_packet 1)) \<le> sint (9223372036854775805 :: time_t) + 5
   \<and> validate_packet (sample_packet 1) 9223372036854775805 = False"
  by (simp add: nan_packet_def sample_packet_def validate_packet_def in_range_def fleq_def
        fgreater_def int_to_float_def)

text \<open>
  Claim C7, amended. For every packet whose temperature is not NaN and lies outside
  \<open>[-20, 100]\<close>, \<open>validate_packet\<close> returns false; at a temperature of exactly -20 or
  exactly 100, the other fields being in range and the clock reading \<open>now\<close> being at most
  \<open>TIME_MAX - 5\<close>, it returns true. For every clock reading \<open>now\<close> of at most
  \<open>TIME_MAX - 5\<close> and every packet with \<open>timestamp \<le> now + 5\<close> and all other fields
  in range it returns true, and at \<open>timestamp = now + 6\<close> it returns false.
\<close>

theorem validate_packet_boundaries:
  "(temperature pkt \<noteq> NaN \<and> \<not> in_range (- 20) 100 (temperature pkt)
      \<longrightarrow> validate_packet pkt now = False)
   \<and> (0 < sint (sequence_no pkt) \<and> in_range 0 100 (cpu_usage pkt)
        \<and> in_range 0 100 (battery_level pkt)
        \<and> sint now \<le> TIME_MAX - 5 \<and> sint (timestamp pkt) \<le> sint now + 5
      \<longrightarrow> validate_packet (pkt\<lparr>temperature := int_to_float (- 20)\<rparr>) now = True
          \<and> validate_packet (pkt\<lparr>temperature := int_to_float 100\<rparr>) now = True)
   \<and> (0 < sint (sequence_no pkt) \<and> in_range (- 20) 100 (temperature pkt)
        \<and> in_range 0 100 (cpu_usage pkt) \<and> in_range 0 100 (battery_level pkt)
        \<and> sint now \<le> TIME_MAX - 5 \<and> sint (timestamp pkt) \<le> sint now + 5
      \<longrightarrow> validate_packet pkt now = True)
   \<and> (sint (timestamp pkt) = sint now + 6 \<longrightarrow> validate_packet pkt now = False)"
proof (intro conjI impI)
  assume "temperature pkt \<noteq> NaN \<and> \<not> in_range (- 20) 100 (temperature pkt)"
  then have "fless (temperature pkt) (int_to_float (- 20))
             \<or> fgreater (temperature pkt) (int_to_float 100)"
    using outside_range by blast
  then show "validate_packet pkt now = False"
    by (auto simp: validate_packet_def)
next
  assume a: "0 < sint (sequence_no pkt) \<and> in_range 0 100 (cpu_usage pkt)
        \<and> in_range 0 100 (battery_level pkt)
        \<and> sint now \<le> TIME_MAX - 5 \<and> sint (timestamp pkt) \<le> sint now + 5"
  then have t: "sint (timestamp pkt) \<le> sint (now + 5)"
    by (simp add: sint_plus5)
  have lo: "in_range (- 20) 100 (int_to_float (- 20))"
    and hi: "in_range (- 20) 100 (int_to_float 100)"
    by (simp_all add: in_range_def fleq_def int_to_float_def)
  show "validate_packet (pkt\<lparr>temperature := int_to_float (- 20)\<rparr>) now = True"
    using a t lo valid_if_in_range [of "pkt\<lparr>temperature := int_to_float (- 20)\<rparr>" now]
    by simp
  show "validate_packet (pkt\<lparr>temperature := int_to_float 100\<rparr>) now = True"
    using a t hi valid_if_in_range [of "pkt\<lparr>temperature := int_to_float 100\<rparr>" now]
    by simp
next
  assume a: "0 < sint (sequence_no pkt) \<and> in_range (- 20) 100 (temperature pkt)
        \<and> in_range 0 100 (cpu_usage pkt) \<and> in_range 0 100 (battery_level pkt)
        \<and> sint now \<le> TIME_MAX - 5 \<and> sint (timestamp pkt) \<le> sint now + 5"
  then have "sint (timestamp pkt) \<le> sint (now + 5)"
    by (simp add: sint_plus5)
  with a show "validate_packet pkt now = True"
    using valid_if_in_range [of pkt now] by simp
next
  assume a: "sint (timestamp pkt) = sint now + 6"
  have "sint (timestamp pkt) < 2 ^ 63" using sint_lt [of "timestamp pkt"] by simp
  with a have "sint now \<le> TIME_MAX - 5" by (simp add: TIME_MAX_def)
  then have "sint (now + 5) = sint now + 5" by (rule sint_plus5)
  with a show "validate_packet pkt now = False"
    by (simp add: validate_packet_def)
qed

theorem validate_packet_boundaries_witness:
  "(temperature ((sample_packet 1)\<lparr>temperature := int_to_float 101\<rparr>) \<noteq> NaN
    \<and> \<not> in_range (- 20) 100 (temperature ((sample_packet 1)\<lparr>temperature := int_to_float 101\<rparr>))
    \<and> validate_packet ((sample_packet 1)\<lparr>temperature := int_to_float 101\<rparr>) 1700000000 = False)
   \<and> (0 < sint (sequence_no (sample_packet 1))
      \<and> in_range (- 20) 100 (temperature (sample_packet 1))
      \<and> in_range 0 100 (cpu_usage (sample_packet 1))
      \<and> in_range 0 100 (battery_level (sample_packet 1))
      \<and> sint (1699999995 :: time_t) \<le> TIME_MAX - 5
      \<and> sint (timestamp (sample_packet 1)) \<le> sint (1699999995 :: time_t) + 5
      \<and> validate_packet ((sample_packet 1)\<lparr>temperature := int_to_float (- 20)\<rparr>) 1699999995 = True
      \<and> validate_packet ((sample_packet 1)\<lparr>temperature := int_to_float 100\<rparr>) 1699999995 = True
      \<and> validate_packet (sample_packet 1) 1699999995 = True)
   \<and> (sint (timestamp (sample_packet 1)) = sint (1699999994 :: time_t) + 6
      \<and> validate_packet (sample_packet 1) 1699999994 = False)"
  using validate_packet_boundaries
          [of "(sample_packet 1)\<lparr>temperature := int_to_float 101\<rparr>" 1700000000]
        validate_packet_boundaries [of "sample_packet 1" 1699999995]
        validate_packet_boundaries [of "sample_packet 1" 1699999994]
  by (simp add: sample_packet_def in_range_def fleq_def int_to_float_def TIME_MAX_def)

text \<open>
  Claim C8. \<open>is_anomalous\<close> returns true exactly when the temperature is above 60 or the
  packet rate is above 100. It is true at temperature 61 and, the packet rate being at
  most 100, false at temperature 60; it is true at packet rate 101 and, the temperature
  not being above 60, false at packet rate 100. It is a function of the packet alone and
  always returns a boolean.
\<close>

theorem is_anomalous_iff:
  "is_anomalous pkt =
     (fgreater (temperature pkt) (int_to_float 60) \<or> sint (packet_rate pkt) > 100)
   \<and> is_anomalous (pkt\<lparr>temperature := int_to_float 61\<rparr>) = True
   \<and> (sint (packet_rate pkt) \<le> 100
        \<longrightarrow> is_anomalous (pkt\<lparr>temperature := int_to_float 60\<rparr>) = False)
   \<and> is_anomalous (pkt\<lparr>packet_rate := 101\<rparr>) = True
   \<and> (\<not> fgreater (temperature pkt) (int_to_float 60)
        \<longrightarrow> is_anomalous (pkt\<lparr>packet_rate := 100\<rparr>) = False)"
  by (simp add: is_anomalous_def fgreater_def int_to_float_def)

theorem is_anomalous_iff_witness:
  "sint (packet_rate (sample_packet 1)) \<le> 100
   \<and> \<not> fgreater (temperature (sample_packet 1)) (int_to_float 60)
   \<and> is_anomalous (sample_packet 1) = False
   \<and> is_anomalous ((sample_packet 1)\<lparr>temperature := int_to_float 61\<rparr>) = True
   \<and> is_anomalous ((sample_packet 1)\<lparr>temperature := int_to_float 60\<rparr>) = False
   \<and> is_anomalous ((sample_packet 1)\<lparr>packet_rate := 101\<rparr>) = True
   \<and> is_anomalous ((sample_packet 1)\<lparr>packet_rate := 100\<rparr>) = False"
  using is_anomalous_iff [of "sample_packet 1"]
  by (simp add: sample_packet_def fgreater_def int_to_float_def)

text \<open>
  Claim C10. Validation does not read \<open>humidity\<close> or \<open>packet_rate\<close>: two packets that
  agree on every other field get the same verdict at the same clock reading, so no value
  of either field, NaN, the infinities and the extreme integers included, changes the
  verdict on a packet.
\<close>

theorem validate_packet_ignores_humidity_and_rate:
  assumes "device_id p = device_id q" and "sequence_no p = sequence_no q"
    and "temperature p = temperature q" and "cpu_usage p = cpu_usage q"
    and "battery_level p = battery_level q" and "timestamp p = timestamp q"
  shows "validate_packet p now = validate_packet q now
       \<and> validate_packet (p\<lparr>humidity := h, packet_rate := r\<rparr>) now = validate_packet p now"
  using assms by (simp add: validate_packet_def)

theorem validate_packet_ignores_humidity_and_rate_witness:
  "device_id (sample_packet 1) = device_id ((sample_packet 1)\<lparr>humidity := NaN, packet_rate := - 1\<rparr>)
   \<and> sequence_no (sample_packet 1) = sequence_no ((sample_packet 1)\<lparr>humidity := NaN, packet_rate := - 1\<rparr>)
   \<and> temperature (sample_packet 1) = temperature ((sample_packet 1)\<lparr>humidity := NaN, packet_rate := - 1\<rparr>)
   \<and> cpu_usage (sample_packet 1) = cpu_usage ((sample_packet 1)\<lparr>humidity := NaN, packet_rate := - 1\<rparr>)
   \<and> battery_level (sample_packet 1) = battery_level ((sample_packet 1)\<lparr>humidity := NaN, packet_rate := - 1\<rparr>)
   \<and> timestamp (sample_packet 1) = timestamp ((sample_packet 1)\<lparr>humidity := NaN, packet_rate := - 1\<rparr>)
   \<and> validate_packet (sample_packet 1) 1700000000
       = validate_packet ((sample_packet 1)\<lparr>humidity := NaN, packet_rate := - 1\<rparr>) 1700000000
   \<and> validate_packet ((sample_packet 1)\<lparr>humidity := PlusInf, packet_rate := 2147483647\<rparr>) 1700000000
       = validate_packet (sample_packet 1) 1700000000"
  using validate_packet_ignores_humidity_and_rate
          [where p = "sample_packet 1"
             and q = "(sample_packet 1)\<lparr>humidity := NaN, packet_rate := - 1\<rparr>"
             and now = 1700000000 and h = PlusInf and r = 2147483647]
  by simp

section \<open>The batching pipeline\<close>

text \<open>
  Claim C5. For every packet that fails validation and every gateway state,
  \<open>process_packet\<close> leaves the buffer unchanged: nothing is appended and no flush
  occurs. It writes one diagnostic line that carries the sequence number of the rejected
  packet, and it returns normally.
\<close>

theorem rejected_packet_dropped:
  assumes "validate_packet pkt now = False"
  shows "batch_buffer (process_packet pkt now g) = batch_buffer g
       \<and> cout (process_packet pkt now g) =
           cout g @ [OLit ''[INVALID PACKET DROPPED] Seq: '', OInt (sequence_no pkt), OEndl]
       \<and> flush_count (cout (process_packet pkt now g)) = flush_count (cout g)"
  using assms process_rejected_count [of pkt now g] by (simp add: process_rejected)

theorem rejected_packet_dropped_witness:
  "validate_packet (sample_packet 0) 1700000000 = False
   \<and> batch_buffer (process_packet (sample_packet 0) 1700000000
        \<lparr>batch_buffer = [sample_packet 1, sample_packet 2], cout = []\<rparr>)
       = [sample_packet 1, sample_packet 2]
   \<and> cout (process_packet (sample_packet 0) 1700000000
        \<lparr>batch_buffer = [sample_packet 1, sample_packet 2], cout = []\<rparr>)
       = [OLit ''[INVALID PACKET DROPPED] Seq: '', OInt 0, OEndl]
   \<and> flush_count (cout (process_packet (sample_packet 0) 1700000000
        \<lparr>batch_buffer = [sample_packet 1, sample_packet 2], cout = []\<rparr>)) = 0"
proof -
  have h: "validate_packet (sample_packet 0) 1700000000 = False"
    by (simp add: validate_packet_def sample_packet_def)
  show ?thesis
    using h rejected_packet_dropped
              [OF h, of "\<lparr>batch_buffer = [sample_packet 1, sample_packet 2], cout = []\<rparr>"]
    by (simp add: sample_packet_def flush_count_def batch_header_def)
qed

text \<open>
  Claim C3. For every gateway state, \<open>send_batch_to_server\<close> writes the batch header
  and then one line for each packet of the buffer, front to back, each packet once, and
  leaves the buffer empty. A line carries all eight fields, so the lines written determine
  the sequence of packets. In every state reached from the initial one the buffer holds
  exactly the accepted packets that came after the last flush, in the order of arrival:
  a flush has happened after every fifth accepted packet.
\<close>

theorem flush_delivers_buffer:
  "batch_buffer (send_batch_to_server g) = []
   \<and> cout (send_batch_to_server g)
       = cout g @ OLit batch_header # concat (map packet_line (batch_buffer g))
   \<and> (concat (map packet_line pkts) = concat (map packet_line (batch_buffer g))
        \<longrightarrow> pkts = batch_buffer g)
   \<and> flush_count (cout (process_all ins gateway_init)) = length (accepted ins) div BATCH_SIZE
   \<and> batch_buffer (process_all ins gateway_init)
       = drop (BATCH_SIZE * (length (accepted ins) div BATCH_SIZE)) (accepted ins)"
proof -
  have "batch_buffer gateway_init = []" and "flush_count (cout gateway_init) = 0"
    by (simp_all add: gateway_init_def flush_count_def)
  with run_from_empty [of gateway_init ins] packet_lines_inj [of pkts "batch_buffer g"]
  show ?thesis
    by (simp add: send_batch_eq BATCH_SIZE_def)
qed

theorem flush_delivers_buffer_witness:
  "concat (map packet_line [sample_packet 1, sample_packet 2])
     = concat (map packet_line
         (batch_buffer \<lparr>batch_buffer = [sample_packet 1, sample_packet 2], cout = []\<rparr>))
   \<and> batch_buffer (send_batch_to_server
         \<lparr>batch_buffer = [sample_packet 1, sample_packet 2], cout = []\<rparr>) = []
   \<and> cout (send_batch_to_server
         \<lparr>batch_buffer = [sample_packet 1, sample_packet 2], cout = []\<rparr>)
       = OLit batch_header # packet_line (sample_packet 1) @ packet_line (sample_packet 2)"
  using flush_delivers_buffer
          [of "\<lparr>batch_buffer = [sample_packet 1, sample_packet 2], cout = []\<rparr>"
              "[sample_packet 1, sample_packet 2]" "[]"]
  by simp

text \<open>
  Claim C2. Starting from an empty buffer, processing exactly \<open>BATCH_SIZE\<close> (5) valid
  packets triggers exactly one flush and leaves the buffer at size 0; processing
  \<open>BATCH_SIZE - 1\<close> (4) valid packets triggers no flush and leaves the buffer at size
  \<open>BATCH_SIZE - 1\<close>.
\<close>

theorem threshold_flush:
  assumes "batch_buffer g = []"
    and "\<forall>(pkt, now) \<in> set ins. validate_packet pkt now"
  shows "(length ins = BATCH_SIZE \<longrightarrow>
            flush_count (cout (process_all ins g)) = flush_count (cout g) + 1
            \<and> length (batch_buffer (process_all ins g)) = 0)
       \<and> (length ins = BATCH_SIZE - 1 \<longrightarrow>
            flush_count (cout (process_all ins g)) = flush_count (cout g)
            \<and> length (batch_buffer (process_all ins g)) = BATCH_SIZE - 1)"
  using run_from_empty [OF assms(1), of ins] accepted_all_valid [OF assms(2)]
  by (simp add: BATCH_SIZE_def)

theorem threshold_flush_witness:
  "batch_buffer gateway_init = []
   \<and> list_all (\<lambda>(pkt, now). validate_packet pkt now) (take 5 sample_inputs)
   \<and> list_all (\<lambda>(pkt, now). validate_packet pkt now) (take 4 sample_inputs)
   \<and> length (take 5 sample_inputs) = BATCH_SIZE
   \<and> length (take 4 sample_inputs) = BATCH_SIZE - 1
   \<and> flush_count (cout (process_all (take 5 sample_inputs) gateway_init)) = 1
   \<and> length (batch_buffer (process_all (take 5 sample_inputs) gateway_init)) = 0
   \<and> flush_count (cout (process_all (take 4 sample_inputs) gateway_init)) = 0
   \<and> length (batch_buffer (process_all (take 4 sample_inputs) gateway_init)) = 4"
proof -
  have e: "batch_buffer gateway_init = []" and c: "flush_count (cout gateway_init) = 0"
    by (simp_all add: gateway_init_def flush_count_def)
  have v5: "\<forall>(pkt, now) \<in> set (take 5 sample_inputs). validate_packet pkt now"
    using sample_inputs_valid by (auto dest: in_set_takeD)
  have v4: "\<forall>(pkt, now) \<in> set (take 4 sample_inputs). validate_packet pkt now"
    using sample_inputs_valid by (auto dest: in_set_takeD)
  have l5: "length (take 5 sample_inputs) = BATCH_SIZE"
    and l4: "length (take 4 sample_inputs) = BATCH_SIZE - 1"
    by (simp_all add: sample_inputs_def BATCH_SIZE_def)
  show ?thesis
    using e c v5 v4 l5 l4 threshold_flush [OF e v5] threshold_flush [OF e v4]
    by (simp add: BATCH_SIZE_def list_all_iff)
qed



text \<open>
  Claim C6. The buffer never holds more than \<open>BATCH_SIZE\<close> (5) packets. In every state
  reached from the initial gateway by calls of \<open>process_packet\<close>, and so after every
  such call, the buffer holds at most \<open>BATCH_SIZE - 1\<close> packets. Inside a call that
  accepts a packet the buffer holds at most \<open>BATCH_SIZE\<close> packets after the append; when
  it holds exactly \<open>BATCH_SIZE\<close> the call flushes before it returns and the buffer is
  empty on return, and otherwise the call returns the buffer as appended.
\<close>

theorem buffer_below_threshold:
  assumes "g = process_all ins gateway_init"
  shows "length (batch_buffer g) \<le> BATCH_SIZE - 1
       \<and> length (batch_buffer (process_packet pkt now g)) \<le> BATCH_SIZE - 1
       \<and> (validate_packet pkt now \<longrightarrow>
            length (batch_buffer (push_back pkt g)) \<le> BATCH_SIZE
            \<and> (length (batch_buffer (push_back pkt g)) = BATCH_SIZE \<longrightarrow>
                 process_packet pkt now g = send_batch_to_server (push_back pkt g)
                 \<and> length (batch_buffer (process_packet pkt now g)) = 0)
            \<and> (length (batch_buffer (push_back pkt g)) < BATCH_SIZE \<longrightarrow>
                 process_packet pkt now g = push_back pkt g))"
proof -
  have e: "batch_buffer gateway_init = []" by (simp add: gateway_init_def)
  have bound: "length (batch_buffer (process_all xs gateway_init)) \<le> 4" for xs
  proof -
    have "length (batch_buffer (process_all xs gateway_init)) = length (accepted xs) mod 5"
      using run_from_empty [OF e, of xs] by (simp add: minus_mult_div_eq_mod)
    then show ?thesis by simp
  qed
  have b1: "length (batch_buffer g) \<le> 4"
    using bound [of ins] assms by simp
  have "process_packet pkt now g = process_all (ins @ [(pkt, now)]) gateway_init"
    using assms by (simp add: process_all_append)
  then have b2: "length (batch_buffer (process_packet pkt now g)) \<le> 4"
    using bound [of "ins @ [(pkt, now)]"] by simp
  show ?thesis
    using b1 b2
    by (simp add: BATCH_SIZE_def process_packet_def push_back_def send_batch_eq Let_def)
qed

theorem buffer_below_threshold_witness:
  "validate_packet (sample_packet 5) 1700000000
   \<and> length (batch_buffer (push_back (sample_packet 5)
         (process_all (take 4 sample_inputs) gateway_init))) = BATCH_SIZE
   \<and> length (batch_buffer (process_all (take 4 sample_inputs) gateway_init)) \<le> BATCH_SIZE - 1
   \<and> process_packet (sample_packet 5) 1700000000
         (process_all (take 4 sample_inputs) gateway_init)
       = send_batch_to_server (push_back (sample_packet 5)
           (process_all (take 4 sample_inputs) gateway_init))
   \<and> length (batch_buffer (process_packet (sample_packet 5) 1700000000
         (process_all (take 4 sample_inputs) gateway_init))) = 0
   \<and> length (batch_buffer (push_back (sample_packet 5) (process_all [] gateway_init)))
       < BATCH_SIZE
   \<and> process_packet (sample_packet 5) 1700000000 (process_all [] gateway_init)
       = push_back (sample_packet 5) (process_all [] gateway_init)"
proof -
  have v: "validate_packet (sample_packet 5) 1700000000"
    by (simp add: sample_packet_valid)
  have v4: "\<forall>(pkt, now) \<in> set (take 4 sample_inputs). validate_packet pkt now"
    using sample_inputs_valid by (auto dest: in_set_takeD)
  have "process_all (take 4 sample_inputs) gateway_init
          = gateway_init\<lparr>batch_buffer := map fst (take 4 sample_inputs)\<rparr>"
    using valid_block_short [OF v4, of gateway_init]
    by (simp add: gateway_init_def sample_inputs_def)
  then have l4: "length (batch_buffer (push_back (sample_packet 5)
         (process_all (take 4 sample_inputs) gateway_init))) = BATCH_SIZE"
    by (simp add: push_back_def sample_inputs_def BATCH_SIZE_def)
  have l0: "length (batch_buffer (push_back (sample_packet 5) (process_all [] gateway_init)))
       < BATCH_SIZE"
    by (simp add: push_back_def gateway_init_def BATCH_SIZE_def)
  show ?thesis
    using v l4 l0
      buffer_below_threshold
        [of "process_all (take 4 sample_inputs) gateway_init" "take 4 sample_inputs"
            "sample_packet 5" 1700000000]
      buffer_below_threshold
        [of "process_all [] gateway_init" "[]" "sample_packet 5" 1700000000]
    by (simp add: send_batch_eq)
qed

section \<open>The packet source\<close>

lemma nth_call_ok:
  assumes "1 \<le> n" and "n \<le> 2147483647"
  shows "\<exists>pkt. nth_call env n = Inr pkt \<and> sint (sequence_no pkt) = int n
            \<and> timestamp pkt = clock (env n)"
proof -
  have "n - 1 \<le> 2147483647" using assms by simp
  from counter_after_ok [OF this]
  obtain c where ih: "counter_after env (n - 1) = Inr c" and c: "sint c = int (n - 1)"
    by blast
  have lt: "sint c < 2147483647" using assms c by simp
  have "sint (c + 1) = int n" using sint_succ [OF lt] c assms by simp
  then show ?thesis
    using ih lt by (simp add: nth_call_def generate_packet_def INT_MAX_def Let_def)
qed

text \<open>
  Claim C9, as stated, fails at \<open>n = 2147483648\<close>: the counter is an \<open>int\<close> and holds
  \<open>INT_MAX\<close> after 2147483647 calls, so the next call overflows it and returns no packet
  with sequence number 2147483648.
\<close>

theorem nth_call_overflow:
  "nth_call sample_env 2147483648 = Inl Signed_Overflow"
proof -
  have "(2147483647::nat) \<le> 2147483647" by simp
  from counter_after_ok [OF this]
  obtain c where ih: "counter_after sample_env 2147483647 = Inr c"
    and c: "sint c = int 2147483647"
    by blast
  show ?thesis using ih c by (simp add: nth_call_def generate_packet_def INT_MAX_def)
qed

text \<open>
  Claim C9, amended. For every \<open>n\<close> from 1 to \<open>INT_MAX\<close> (2147483647), call number
  \<open>n\<close> of \<open>generate_packet\<close> returns a packet whose sequence number is \<open>n\<close> and whose
  timestamp is the clock reading of that call; the sequence numbers start at 1 and every
  earlier call returned a smaller one.
\<close>

theorem nth_call_sequence_no:
  assumes "1 \<le> n" and "int n \<le> INT_MAX"
  shows "\<exists>pkt. nth_call env n = Inr pkt
            \<and> sint (sequence_no pkt) = int n
            \<and> timestamp pkt = clock (env n)
            \<and> (\<forall>m. 1 \<le> m \<and> m < n \<longrightarrow>
                  (\<exists>prev. nth_call env m = Inr prev
                     \<and> sint (sequence_no prev) < sint (sequence_no pkt)))"
proof -
  have n: "n \<le> 2147483647" using assms(2) by (simp add: INT_MAX_def)
  from nth_call_ok [OF assms(1) n]
  obtain pkt where p: "nth_call env n = Inr pkt" "sint (sequence_no pkt) = int n"
    "timestamp pkt = clock (env n)"
    by blast
  have "\<exists>prev. nth_call env m = Inr prev \<and> sint (sequence_no prev) < sint (sequence_no pkt)"
    if m: "1 \<le> m \<and> m < n" for m
  proof -
    have "m \<le> 2147483647" using m n by simp
    with nth_call_ok [of m env] m
    obtain prev where "nth_call env m = Inr prev" "sint (sequence_no prev) = int m"
      by blast
    with p(2) m show ?thesis by simp
  qed
  with p show ?thesis by blast
qed

theorem nth_call_sequence_no_witness:
  "(1::nat) \<le> 3 \<and> int 3 \<le> INT_MAX
   \<and> (\<exists>pkt. nth_call sample_env 3 = Inr pkt
          \<and> sint (sequence_no pkt) = 3
          \<and> timestamp pkt = clock (sample_env 3))"
proof -
  have a: "(1::nat) \<le> 3" and b: "int 3 \<le> INT_MAX"
    by (simp_all add: INT_MAX_def)
  from nth_call_sequence_no [OF a b, of sample_env]
  obtain pkt where "nth_call sample_env 3 = Inr pkt" "sint (sequence_no pkt) = int 3"
    "timestamp pkt = clock (sample_env 3)"
    by blast
  with a b show ?thesis by simp
qed

end
